theory Spec2Isabelle
  imports Complex_Main
begin

section \<open>Catalog records: JSON values as Python sees them\<close>

text \<open>
  \<^verbatim>\<open>scrape.py\<close> loads each catalog with \<^verbatim>\<open>json.load\<close>, so a book is a Python
  \<^verbatim>\<open>dict\<close> with string keys whose values are arbitrary JSON values. A dict keeps its
  keys in insertion order, so it is an association list here; a key is looked up with
  \<open>map_of\<close>. Python's \<^verbatim>\<open>None\<close> is \<open>JNull\<close>. Finite JSON numbers are integers or
  rationals (every finite float is a rational).
\<close>

datatype json =
    JNull
  | JBool bool
  | JInt int
  | JFloat rat
  | JStr string
  | JArr "json list"
  | JObj "(string \<times> json) list"

type_synonym book = "(string \<times> json) list"

text \<open>The exceptions the code can raise, one constructor for each place and kind.\<close>

datatype py_error =
    AttributeError
  | TypeError
  | CouldNotParseInt string
  | CouldNotConvertFloat string
  | RatingsCountNotFound
  | FetchOrMarkupError string

text \<open>Python truth value testing (\<^verbatim>\<open>if x:\<close>, \<^verbatim>\<open>x or y\<close>, \<^verbatim>\<open>not x\<close>).\<close>

fun truthy :: "json \<Rightarrow> bool" where
  "truthy JNull = False"
| "truthy (JBool b) = b"
| "truthy (JInt i) = (i \<noteq> 0)"
| "truthy (JFloat r) = (r \<noteq> 0)"
| "truthy (JStr s) = (s \<noteq> [])"
| "truthy (JArr xs) = (xs \<noteq> [])"
| "truthy (JObj kvs) = (kvs \<noteq> [])"

text \<open>\<^verbatim>\<open>d.get(k)\<close> and \<^verbatim>\<open>d.get(k, default)\<close> on a dict.\<close>

definition dict_get_default :: "book \<Rightarrow> string \<Rightarrow> json \<Rightarrow> json" where
  "dict_get_default d k dflt = (case map_of d k of None \<Rightarrow> dflt | Some v \<Rightarrow> v)"

definition dict_get :: "book \<Rightarrow> string \<Rightarrow> json" where
  "dict_get d k = dict_get_default d k JNull"

text \<open>\<^verbatim>\<open>x or {}\<close>: the left operand when it is truthy, else the empty dict.\<close>

definition or_empty_dict :: "json \<Rightarrow> json" where
  "or_empty_dict v = (if truthy v then v else JObj [])"

text \<open>
  \<^verbatim>\<open>v.get(k)\<close> on an arbitrary value: only a dict has the method, every other JSON value
  raises \<^verbatim>\<open>AttributeError\<close>.
\<close>

definition attr_get :: "json \<Rightarrow> string \<Rightarrow> py_error + json" where
  "attr_get v k = (case v of JObj d \<Rightarrow> Inr (dict_get d k) | _ \<Rightarrow> Inl AttributeError)"

text \<open>\<^verbatim>\<open>d[k] = v\<close>: an existing key keeps its position, a new key goes last.\<close>

fun dict_set :: "book \<Rightarrow> string \<Rightarrow> json \<Rightarrow> book" where
  "dict_set [] k v = [(k, v)]"
| "dict_set (p # ps) k v = (if fst p = k then (k, v) # ps else p # dict_set ps k v)"

section \<open>Source resolver\<close>

text \<open>
  \<^verbatim>\<open>pick_source_url\<close>. The result is the pair \<^verbatim>\<open>(source, url)\<close>; the source is
  \<^verbatim>\<open>"goodreads"\<close>, \<^verbatim>\<open>"royalroad"\<close> or \<^verbatim>\<open>None\<close>.
\<close>

definition pick_source_url :: "book \<Rightarrow> py_error + (string option \<times> json)" where
  "pick_source_url book =
     (let primary = dict_get book ''url'' in
      if truthy primary then Inr (Some ''goodreads'', primary)
      else
        (let vendors = or_empty_dict (dict_get book ''vendors'') in
         case attr_get vendors ''rr'' of
           Inl e \<Rightarrow> Inl e
         | Inr rr0 \<Rightarrow>
             (let rr = or_empty_dict rr0 in
              case attr_get rr ''url'' of
                Inl e \<Rightarrow> Inl e
              | Inr rr_url \<Rightarrow>
                  if truthy rr_url then Inr (Some ''royalroad'', rr_url)
                  else Inr (None, JNull))))"

subsection \<open>The resolver's rule in the words of the specification\<close>

text \<open>
  The fields the specification names: \<open>record.url\<close> and the nested \<open>vendors.rr.url\<close>,
  each present or not; a field is "present and non-empty" when it is there and is not
  an empty (falsy) value.
\<close>

definition record_url :: "book \<Rightarrow> json option" where
  "record_url r = map_of r ''url''"

definition vendor_url :: "book \<Rightarrow> json option" where
  "vendor_url r =
     (case map_of r ''vendors'' of
        Some (JObj vs) \<Rightarrow>
          (case map_of vs ''rr'' of
             Some (JObj rr) \<Rightarrow> map_of rr ''url''
           | _ \<Rightarrow> None)
      | _ \<Rightarrow> None)"

definition present_nonempty :: "json option \<Rightarrow> bool" where
  "present_nonempty v = (case v of None \<Rightarrow> False | Some j \<Rightarrow> truthy j)"

text \<open>
  A catalog record of the data model: \<open>vendors\<close>, when it holds anything, is a nested
  mapping, and so is \<open>vendors.rr\<close>.
\<close>

definition mapping_or_empty :: "json \<Rightarrow> bool" where
  "mapping_or_empty v = (case v of JObj _ \<Rightarrow> True | _ \<Rightarrow> \<not> truthy v)"

definition catalog_record :: "book \<Rightarrow> bool" where
  "catalog_record r =
     (mapping_or_empty (dict_get r ''vendors'') \<and>
      (case dict_get r ''vendors'' of
         JObj vs \<Rightarrow> mapping_or_empty (dict_get vs ''rr'')
       | _ \<Rightarrow> True))"

definition spec_resolve :: "book \<Rightarrow> string option \<times> json" where
  "spec_resolve r =
     (if present_nonempty (record_url r) then (Some ''goodreads'', the (record_url r))
      else if present_nonempty (vendor_url r) then (Some ''royalroad'', the (vendor_url r))
      else (None, JNull))"

text \<open>A record with both a primary URL and a secondary vendor URL.\<close>

definition both_urls :: book where
  "both_urls =
     [(''url'', JStr ''https://g/1''),
      (''vendors'', JObj [(''rr'', JObj [(''url'', JStr ''https://rr/1'')])])]"

section \<open>Dictionaries keyed by URL\<close>

text \<open>
  The work list and the scrape cache are dicts whose keys are the URLs the resolver
  returns, that is, values taken from the records. A dict key must be hashable (a list
  or a dict as key raises \<^verbatim>\<open>TypeError\<close>), and two keys are the same key when Python's
  \<^verbatim>\<open>==\<close> says so: strings by their characters, numbers by their value, with
  \<^verbatim>\<open>True == 1 == 1.0\<close>. The dict keeps insertion order.
\<close>

fun hashable :: "json \<Rightarrow> bool" where
  "hashable (JArr _) = False"
| "hashable (JObj _) = False"
| "hashable _ = True"

fun dict_key :: "json \<Rightarrow> json" where
  "dict_key (JBool b) = JFloat (if b then 1 else 0)"
| "dict_key (JInt i) = JFloat (of_int i)"
| "dict_key v = v"

definition py_eq :: "json \<Rightarrow> json \<Rightarrow> bool" where
  "py_eq a b = (dict_key a = dict_key b)"

fun url_lookup :: "(json \<times> 'v) list \<Rightarrow> json \<Rightarrow> 'v option" where
  "url_lookup [] u = None"
| "url_lookup (p # ps) u = (if py_eq (fst p) u then Some (snd p) else url_lookup ps u)"

text \<open>\<^verbatim>\<open>d.setdefault(k, v)\<close>: insert only when the key is not there yet.\<close>

definition setdefault :: "(json \<times> 'v) list \<Rightarrow> json \<Rightarrow> 'v \<Rightarrow> py_error + (json \<times> 'v) list" where
  "setdefault d k v =
     (if \<not> hashable k then Inl TypeError
      else case url_lookup d k of Some _ \<Rightarrow> Inr d | None \<Rightarrow> Inr (d @ [(k, v)]))"

text \<open>\<^verbatim>\<open>d[k] = v\<close> on such a dict, for a hashable key.\<close>

fun url_set :: "(json \<times> 'v) list \<Rightarrow> json \<Rightarrow> 'v \<Rightarrow> (json \<times> 'v) list" where
  "url_set [] k v = [(k, v)]"
| "url_set (p # ps) k v = (if py_eq (fst p) k then (fst p, v) # ps else p # url_set ps k v)"

text \<open>The truth value of the resolver's \<^verbatim>\<open>source\<close>, a string or \<^verbatim>\<open>None\<close>.\<close>

definition source_truthy :: "string option \<Rightarrow> bool" where
  "source_truthy s = (case s of None \<Rightarrow> False | Some n \<Rightarrow> n \<noteq> [])"

section \<open>Target builder\<close>

text \<open>
  \<^verbatim>\<open>build_targets\<close>: the loop over \<^verbatim>\<open>all_books\<close> with the dict \<^verbatim>\<open>targets\<close> as its
  state. An exception of the resolver or of \<^verbatim>\<open>setdefault\<close> ends the function.
\<close>

fun build_targets_loop ::
  "book list \<Rightarrow> (json \<times> string) list \<Rightarrow> py_error + (json \<times> string) list" where
  "build_targets_loop [] targets = Inr targets"
| "build_targets_loop (book # rest) targets =
     (case pick_source_url book of
        Inl e \<Rightarrow> Inl e
      | Inr (source, url) \<Rightarrow>
          if \<not> source_truthy source \<or> \<not> truthy url then build_targets_loop rest targets
          else
            (case setdefault targets url (the source) of
               Inl e \<Rightarrow> Inl e
             | Inr targets' \<Rightarrow> build_targets_loop rest targets'))"

definition build_targets :: "book list \<Rightarrow> py_error + (json \<times> string) list" where
  "build_targets all_books = build_targets_loop all_books []"

subsection \<open>First-seen, in the words of the specification\<close>

text \<open>
  The source-kind of the first record of the sequence that resolves to the URL \<open>u\<close>,
  if any record does.
\<close>

fun first_seen :: "book list \<Rightarrow> json \<Rightarrow> string option" where
  "first_seen [] u = None"
| "first_seen (b # bs) u =
     (case pick_source_url b of
        Inr (Some kind, url) \<Rightarrow> if py_eq url u then Some kind else first_seen bs u
      | _ \<Rightarrow> first_seen bs u)"

text \<open>A record resolves when the resolver returns, and returns a hashable URL.\<close>

definition resolves :: "book \<Rightarrow> bool" where
  "resolves b = (case pick_source_url b of Inl _ \<Rightarrow> False | Inr (kind, url) \<Rightarrow> hashable url)"

definition no_target :: "book \<Rightarrow> bool" where
  "no_target b = (pick_source_url b = Inr (None, JNull))"

section \<open>Reconciler\<close>

text \<open>
  \<^verbatim>\<open>apply_cache\<close> mutates the books in place, so the model returns the list of books as
  the loop left it, together with the returned flag or the exception that ended the
  loop. \<open>apply_cache_body\<close> is one iteration: the book after it, and whether the
  iteration assigned \<^verbatim>\<open>changed = True\<close>.
\<close>

type_synonym cache = "(json \<times> string \<times> string) list"

definition apply_cache_body :: "cache \<Rightarrow> book \<Rightarrow> py_error + (book \<times> bool)" where
  "apply_cache_body cache book =
     (case pick_source_url book of
        Inl e \<Rightarrow> Inl e
      | Inr (source, url) \<Rightarrow>
          if \<not> truthy url then Inr (book, False)
          else if \<not> hashable url then Inl TypeError
          else
            (case url_lookup cache url of
               None \<Rightarrow> Inr (book, False)
             | Some (rating_str, count_str) \<Rightarrow>
                 if dict_get_default book ''rating'' (JStr []) \<noteq> JStr rating_str \<or>
                    dict_get_default book ''r_count'' (JStr []) \<noteq> JStr count_str
                 then Inr (dict_set (dict_set book ''rating'' (JStr rating_str))
                             ''r_count'' (JStr count_str), True)
                 else Inr (book, False)))"

fun apply_cache_loop :: "book list \<Rightarrow> cache \<Rightarrow> bool \<Rightarrow> book list \<times> (py_error + bool)" where
  "apply_cache_loop [] cache changed = ([], Inr changed)"
| "apply_cache_loop (book # rest) cache changed =
     (case apply_cache_body cache book of
        Inl e \<Rightarrow> (book # rest, Inl e)
      | Inr (book', wrote) \<Rightarrow>
          (let (rest', r) = apply_cache_loop rest cache (changed \<or> wrote)
           in (book' # rest', r)))"

definition apply_cache :: "book list \<Rightarrow> cache \<Rightarrow> book list \<times> (py_error + bool)" where
  "apply_cache books cache = apply_cache_loop books cache False"

subsection \<open>Reconciliation of one record, in the words of the specification\<close>

text \<open>The URL of the record's resolved target; \<open>JNull\<close> when there is none.\<close>

definition resolved_url :: "book \<Rightarrow> json" where
  "resolved_url r = (case pick_source_url r of Inl _ \<Rightarrow> JNull | Inr (kind, url) \<Rightarrow> url)"

text \<open>The stored string of a field; an absent field counts as the empty string.\<close>

definition stored :: "book \<Rightarrow> string \<Rightarrow> json" where
  "stored r k = (case map_of r k of None \<Rightarrow> JStr [] | Some v \<Rightarrow> v)"

definition overwrite_both :: "book \<Rightarrow> string \<times> string \<Rightarrow> book" where
  "overwrite_both r p = dict_set (dict_set r ''rating'' (JStr (fst p))) ''r_count'' (JStr (snd p))"

definition reconcile :: "cache \<Rightarrow> book \<Rightarrow> book" where
  "reconcile cache r =
     (if \<not> truthy (resolved_url r) then r
      else case url_lookup cache (resolved_url r) of
             None \<Rightarrow> r
           | Some p \<Rightarrow>
               if stored r ''rating'' \<noteq> JStr (fst p) \<or> stored r ''r_count'' \<noteq> JStr (snd p)
               then overwrite_both r p
               else r)"

text \<open>Everything of a record but the two fields the reconciler may write.\<close>

definition other_fields :: "book \<Rightarrow> book" where
  "other_fields r = filter (\<lambda>p. fst p \<noteq> ''rating'' \<and> fst p \<noteq> ''r_count'') r"

text \<open>Four records: two resolve to the same URL with different source-kinds, one has no target.\<close>

definition g1 :: book where "g1 = [(''title'', JStr ''A''), (''url'', JStr ''https://g/1'')]"
definition no_url :: book where "no_url = [(''title'', JStr ''B''), (''url'', JNull)]"
definition rr_g1 :: book where
  "rr_g1 = [(''vendors'', JObj [(''rr'', JObj [(''url'', JStr ''https://g/1'')])])]"
definition rr2 :: book where
  "rr2 = [(''url'', JStr []), (''vendors'', JObj [(''rr'', JObj [(''url'', JStr ''https://rr/2'')])])]"
definition four_books :: "book list" where "four_books = [g1, no_url, rr_g1, rr2]"

text \<open>
  A cache of two URLs; a record whose stored rating is stale, and one whose stored
  fields are the cached ones already.
\<close>

definition two_cached :: cache where
  "two_cached =
     [(JStr ''https://g/7'', (''4.5'', ''1234'')), (JStr ''https://rr/2'', (''4.8'', ''20''))]"

definition stale :: book where
  "stale = [(''url'', JStr ''https://g/7''), (''rating'', JStr ''4.2''), (''r_count'', JStr ''1234'')]"

definition fresh :: book where
  "fresh =
     [(''url'', JNull), (''rating'', JStr ''4.8''),
      (''vendors'', JObj [(''rr'', JObj [(''url'', JStr ''https://rr/2'')])]),
      (''r_count'', JStr ''20'')]"

section \<open>Text helpers\<close>

text \<open>
  A Python string is the list of its code points; the model covers the code points
  below 256, one \<open>char\<close> each. There the decimal digits (\<^verbatim>\<open>\d\<close>) are \<^verbatim>\<open>0\<close> to \<^verbatim>\<open>9\<close>, the
  whitespace characters (\<^verbatim>\<open>\s\<close>, \<^verbatim>\<open>str.strip\<close>) are the code points 9 to 13, 28 to 32,
  133 and 160, and the letters \<^verbatim>\<open>str.lower\<close> changes are \<^verbatim>\<open>A\<close> to \<^verbatim>\<open>Z\<close> and the code
  points 192 to 222 without 215.
\<close>

definition is_digit :: "char \<Rightarrow> bool" where
  "is_digit c = (48 \<le> (of_char c :: nat) \<and> (of_char c :: nat) \<le> 57)"

definition digit_value :: "char \<Rightarrow> nat" where
  "digit_value c = of_char c - 48"

definition is_space :: "char \<Rightarrow> bool" where
  "is_space c =
     (let n = (of_char c :: nat)
      in (9 \<le> n \<and> n \<le> 13) \<or> (28 \<le> n \<and> n \<le> 32) \<or> n = 133 \<or> n = 160)"

definition lower_char :: "char \<Rightarrow> char" where
  "lower_char c =
     (let n = (of_char c :: nat)
      in if (65 \<le> n \<and> n \<le> 90) \<or> (192 \<le> n \<and> n \<le> 222 \<and> n \<noteq> 215)
         then char_of (n + 32) else c)"

definition lower :: "string \<Rightarrow> string" where
  "lower s = map lower_char s"

text \<open>\<^verbatim>\<open>s.strip()\<close>.\<close>

definition strip :: "string \<Rightarrow> string" where
  "strip s = rev (dropWhile is_space (rev (dropWhile is_space s)))"

text \<open>\<^verbatim>\<open>re.sub(r"\s+", " ", s)\<close>: every maximal run of whitespace becomes one space.\<close>

function collapse_ws :: "string \<Rightarrow> string" where
  "collapse_ws [] = []"
| "collapse_ws (c # cs) =
     (if is_space c then CHR '' '' # collapse_ws (dropWhile is_space cs)
      else c # collapse_ws cs)"
  by pat_completeness auto
termination
  by (relation "measure length") (auto simp: length_dropWhile_le less_Suc_eq_le)

text \<open>
  \<^verbatim>\<open>int(digits)\<close> for a string of decimal digits, read from the left. Python integers
  are unbounded; the interpreter's configurable limit on the length of a decimal string
  is outside the model.
\<close>

definition py_int :: "string \<Rightarrow> int" where
  "py_int digits = int (foldl (\<lambda>acc c. 10 * acc + digit_value c) 0 digits)"

text \<open>\<^verbatim>\<open>_clean_int\<close>.\<close>

definition clean_int :: "string \<Rightarrow> py_error + int" where
  "clean_int text =
     (let digits = filter is_digit text
      in if digits = [] then Inl (CouldNotParseInt text) else Inr (py_int digits))"

section \<open>Ratings count of the secondary site\<close>

text \<open>
  The second half of \<^verbatim>\<open>scrape_royalroad\<close>: the loop over \<^verbatim>\<open>lis\<close>, given as the list of
  the items' texts (\<^verbatim>\<open>get_text(" ", strip=True)\<close> of each \<^verbatim>\<open>li\<close>). An item matches when
  its normalised key is one of three strings and it is not the last item; the loop
  breaks at the first match, and an exception of \<^verbatim>\<open>_clean_int\<close> leaves the function.
\<close>

definition normalise_key :: "string \<Rightarrow> string" where
  "normalise_key key = lower (strip (collapse_ws key))"

definition is_ratings_key :: "string \<Rightarrow> bool" where
  "is_ratings_key key_norm =
     (key_norm = ''ratings :'' \<or> key_norm = ''ratings:'' \<or> key_norm = ''ratings'')"

fun royalroad_rating_count :: "string list \<Rightarrow> py_error + int" where
  "royalroad_rating_count [] = Inl RatingsCountNotFound"
| "royalroad_rating_count [key] = Inl RatingsCountNotFound"
| "royalroad_rating_count (key # val_text # rest) =
     (if is_ratings_key (normalise_key key) then clean_int val_text
      else royalroad_rating_count (val_text # rest))"

subsection \<open>The label test in the words of the specification\<close>

text \<open>
  The normalised text of an item: whitespace collapsed (and trimmed), case folded, and
  a trailing colon stripped together with the space before it.
\<close>

definition rstrip :: "string \<Rightarrow> string" where
  "rstrip s = rev (dropWhile is_space (rev s))"

definition strip_trailing_colon :: "string \<Rightarrow> string" where
  "strip_trailing_colon s =
     (if s \<noteq> [] \<and> last s = CHR '':'' then rstrip (butlast s) else s)"

definition spec_label :: "string \<Rightarrow> string" where
  "spec_label text = strip_trailing_colon (lower (strip (collapse_ws text)))"

text \<open>
  A text is single-spaced when its only whitespace characters are spaces and no two of
  them are adjacent.
\<close>

fun single_spaced :: "string \<Rightarrow> bool" where
  "single_spaced [] = True"
| "single_spaced [c] = (is_space c \<longrightarrow> c = CHR '' '')"
| "single_spaced (a # b # cs) =
     ((is_space a \<longrightarrow> a = CHR '' '' \<and> \<not> is_space b) \<and> single_spaced (b # cs))"

section \<open>Floating-point numbers\<close>

text \<open>
  A Python \<^verbatim>\<open>float\<close> is an IEEE 754 binary64 number: not-a-number, an infinity, or a
  finite number with a sign (\<open>True\<close> for minus, so that \<^verbatim>\<open>-0.0\<close> is there) and a
  magnitude, a non-negative rational \<open>m * 2 ^ e\<close> with \<open>m < 2 ^ 53\<close>.
\<close>

datatype pyfloat = Finite bool rat | Infinite bool | NaN

text \<open>Rounding to the nearest integer, a tie going to the even one.\<close>

definition round_half_even :: "rat \<Rightarrow> int" where
  "round_half_even x =
     (let f = \<lfloor>x\<rfloor>; r = x - of_int f
      in if r < 1 / 2 then f else if 1 / 2 < r then f + 1 else if even f then f else f + 1)"

fun bit_length :: "nat \<Rightarrow> nat" where
  "bit_length n = (if n = 0 then 0 else Suc (bit_length (n div 2)))"

text \<open>For \<open>q > 0\<close>, the exponent \<open>e\<close> with \<open>2 ^ e \<le> q < 2 ^ (e + 1)\<close>.\<close>

definition floor_log2 :: "rat \<Rightarrow> int" where
  "floor_log2 q =
     (let (n, d) = quotient_of q;
          k = int (bit_length (nat n)) - int (bit_length (nat d))
      in if 2 powi k \<le> q then k else k - 1)"

text \<open>
  The binary64 magnitude nearest to a non-negative rational, a tie going to the even
  mantissa: 53 bits of mantissa, the exponent never below that of the subnormal numbers.
  A result of \<open>2 ^ 1024\<close> or more is an overflow, which \<^verbatim>\<open>float\<close> turns into an infinity.
\<close>

definition round_magnitude :: "rat \<Rightarrow> rat" where
  "round_magnitude q =
     (if q = 0 then 0
      else
        (let e = max (floor_log2 q) (- 1022); ulp = 2 powi (e - 52)
         in of_int (round_half_even (q / ulp)) * ulp))"

definition round_double :: "bool \<Rightarrow> rat \<Rightarrow> pyfloat" where
  "round_double s q =
     (let r = round_magnitude q in if 2 ^ 1024 \<le> r then Infinite s else Finite s r)"

text \<open>The values a \<^verbatim>\<open>float\<close> can hold.\<close>

fun representable :: "pyfloat \<Rightarrow> bool" where
  "representable (Finite s q) = (0 \<le> q \<and> q < 2 ^ 1024 \<and> round_magnitude q = q)"
| "representable (Infinite s) = True"
| "representable NaN = True"

section \<open>Numbers to text\<close>

definition digit_char :: "nat \<Rightarrow> char" where
  "digit_char d = char_of (48 + d)"

function digits_of :: "nat \<Rightarrow> string" where
  "digits_of n = (if n < 10 then [digit_char n] else digits_of (n div 10) @ [digit_char (n mod 10)])"
  by pat_completeness auto
termination
  by (relation "measure id") auto

declare digits_of.simps [simp del]

text \<open>\<^verbatim>\<open>str(count)\<close> for an integer.\<close>

definition py_str :: "int \<Rightarrow> string" where
  "py_str i = (if i < 0 then CHR ''-'' # digits_of (nat (- i)) else digits_of (nat i))"

text \<open>
  \<^verbatim>\<open>f"{rating:.2f}"\<close>: the value rounded correctly to two decimals, the sign kept also
  when the digits are all zero.
\<close>

definition format_2f :: "pyfloat \<Rightarrow> string" where
  "format_2f x =
     (case x of
        NaN \<Rightarrow> ''nan''
      | Infinite s \<Rightarrow> (if s then ''-inf'' else ''inf'')
      | Finite s q \<Rightarrow>
          (let n = nat (round_half_even (q * 100))
           in (if s then ''-'' else []) @ digits_of (n div 100) @ ''.'' @
              [digit_char (n mod 100 div 10), digit_char (n mod 10)]))"

text \<open>\<^verbatim>\<open>s.rstrip(chars)\<close>.\<close>

definition rstrip_chars :: "string \<Rightarrow> string \<Rightarrow> string" where
  "rstrip_chars chars s = rev (dropWhile (\<lambda>c. c \<in> set chars) (rev s))"

text \<open>\<^verbatim>\<open>_format_rating\<close>.\<close>

definition format_rating :: "pyfloat \<Rightarrow> string" where
  "format_rating rating = rstrip_chars ''.'' (rstrip_chars ''0'' (format_2f rating))"

section \<open>Text to floating-point numbers\<close>

text \<open>
  \<^verbatim>\<open>float(s)\<close> for a string: surrounding whitespace is dropped; what remains is an
  optional sign followed by \<^verbatim>\<open>inf\<close>, \<^verbatim>\<open>infinity\<close> or \<^verbatim>\<open>nan\<close> in any case, or by a decimal
  number: digits with an optional point (digits on at least one side of it) and an
  optional exponent. Groups of digits may be separated by single underscores. The exact
  decimal value is rounded to the nearest binary64 number. Anything else raises
  \<^verbatim>\<open>ValueError\<close>.
\<close>

fun digitpart :: "string \<Rightarrow> string option" where
  "digitpart [] = None"
| "digitpart [c] = (if is_digit c then Some [c] else None)"
| "digitpart (c # d # cs) =
     (if is_digit c
      then (if d = CHR ''_'' then map_option ((#) c) (digitpart cs)
            else map_option ((#) c) (digitpart (d # cs)))
      else None)"

text \<open>The text before the first character that satisfies \<open>P\<close>, and the text after it.\<close>

definition split_at :: "(char \<Rightarrow> bool) \<Rightarrow> string \<Rightarrow> string \<times> string option" where
  "split_at P s =
     (case dropWhile (\<lambda>c. \<not> P c) s of
        [] \<Rightarrow> (s, None)
      | c # r \<Rightarrow> (takeWhile (\<lambda>c. \<not> P c) s, Some r))"

definition parse_mantissa :: "string \<Rightarrow> (string \<times> string) option" where
  "parse_mantissa m =
     (case split_at (\<lambda>c. c = CHR ''.'') m of
        (ip, None) \<Rightarrow> map_option (\<lambda>ds. (ds, [])) (digitpart ip)
      | (ip, Some fp) \<Rightarrow>
          if ip = [] then map_option (\<lambda>ds. ([], ds)) (digitpart fp)
          else if fp = [] then map_option (\<lambda>ds. (ds, [])) (digitpart ip)
          else (case (digitpart ip, digitpart fp) of
                  (Some a, Some b) \<Rightarrow> Some (a, b)
                | _ \<Rightarrow> None))"

definition parse_exponent :: "string \<Rightarrow> int option" where
  "parse_exponent ex =
     (case ex of
        [] \<Rightarrow> None
      | c # ds \<Rightarrow>
          if c = CHR ''-'' then map_option (\<lambda>d. - py_int d) (digitpart ds)
          else if c = CHR ''+'' then map_option py_int (digitpart ds)
          else map_option py_int (digitpart ex))"

text \<open>The exact value of an unsigned decimal literal.\<close>

definition parse_number :: "string \<Rightarrow> rat option" where
  "parse_number t =
     (case split_at (\<lambda>c. c = CHR ''e'' \<or> c = CHR ''E'') t of
        (m, ex) \<Rightarrow>
          (case (parse_mantissa m, case ex of None \<Rightarrow> Some 0 | Some x \<Rightarrow> parse_exponent x) of
             (Some (ip, fp), Some e) \<Rightarrow>
               Some (of_int (py_int (ip @ fp)) * 10 powi (e - int (length fp)))
           | _ \<Rightarrow> None))"

definition split_sign :: "string \<Rightarrow> bool \<times> string" where
  "split_sign t =
     (case t of
        [] \<Rightarrow> (False, t)
      | c # r \<Rightarrow>
          if c = CHR ''-'' then (True, r) else if c = CHR ''+'' then (False, r) else (False, t))"

definition parse_float :: "string \<Rightarrow> pyfloat option" where
  "parse_float t =
     (let (s, a) = split_sign t
      in if lower a = ''inf'' \<or> lower a = ''infinity'' then Some (Infinite s)
         else if lower a = ''nan'' then Some NaN
         else map_option (round_double s) (parse_number a))"

definition py_float :: "string \<Rightarrow> py_error + pyfloat" where
  "py_float s =
     (case parse_float (strip s) of
        None \<Rightarrow> Inl (CouldNotConvertFloat s)
      | Some x \<Rightarrow> Inr x)"

text \<open>\<^verbatim>\<open>s.replace(",", ".")\<close>.\<close>

definition replace_commas :: "string \<Rightarrow> string" where
  "replace_commas s = map (\<lambda>c. if c = CHR '','' then CHR ''.'' else c) s"

text \<open>\<^verbatim>\<open>_clean_float\<close>.\<close>

definition clean_float :: "string \<Rightarrow> py_error + pyfloat" where
  "clean_float text = (let t = replace_commas (strip text) in py_float t)"

text \<open>The number of decimal points in a text.\<close>

definition points :: "string \<Rightarrow> nat" where
  "points s = length (filter (\<lambda>c. c = CHR ''.'') s)"

section \<open>Scrape driver\<close>

text \<open>
  \<^verbatim>\<open>scrape_targets\<close>. The two extractors fetch a page and read it, so what they return
  or raise for a URL is given from outside: a parameter for each. The loop carries the
  dict \<^verbatim>\<open>cache\<close> and the counter \<^verbatim>\<open>failures\<close>; \<^verbatim>\<open>except Exception\<close> catches whatever
  the extractor raises. The delay and the printed lines change neither. The function
  returns the cache; the counter only decides whether a warning is printed.
\<close>

type_synonym extractor = "json \<Rightarrow> py_error + (pyfloat \<times> int)"

fun scrape_targets_loop ::
  "extractor \<Rightarrow> extractor \<Rightarrow> (json \<times> string) list \<Rightarrow> cache \<Rightarrow> nat \<Rightarrow> cache \<times> nat" where
  "scrape_targets_loop scrape_goodreads scrape_royalroad [] cache failures = (cache, failures)"
| "scrape_targets_loop scrape_goodreads scrape_royalroad ((url, source) # rest) cache failures =
     (case (if source = ''goodreads'' then scrape_goodreads url else scrape_royalroad url) of
        Inr (rating, count) \<Rightarrow>
          scrape_targets_loop scrape_goodreads scrape_royalroad rest
            (url_set cache url (format_rating rating, py_str count)) failures
      | Inl e \<Rightarrow>
          scrape_targets_loop scrape_goodreads scrape_royalroad rest cache (failures + 1))"

definition scrape_targets :: "extractor \<Rightarrow> extractor \<Rightarrow> (json \<times> string) list \<Rightarrow> cache" where
  "scrape_targets scrape_goodreads scrape_royalroad targets =
     fst (scrape_targets_loop scrape_goodreads scrape_royalroad targets [] 0)"

definition scrape_failures :: "extractor \<Rightarrow> extractor \<Rightarrow> (json \<times> string) list \<Rightarrow> nat" where
  "scrape_failures scrape_goodreads scrape_royalroad targets =
     snd (scrape_targets_loop scrape_goodreads scrape_royalroad targets [] 0)"

subsection \<open>The outcome of a target, in the words of the specification\<close>

text \<open>The outcome of the extractor that matches the target's source-kind.\<close>

definition extraction :: "extractor \<Rightarrow> extractor \<Rightarrow> json \<times> string \<Rightarrow> py_error + (pyfloat \<times> int)" where
  "extraction primary secondary t =
     (if snd t = ''goodreads'' then primary (fst t) else secondary (fst t))"

text \<open>The cache entry of a target whose extraction succeeded.\<close>

definition cache_entry ::
  "extractor \<Rightarrow> extractor \<Rightarrow> json \<times> string \<Rightarrow> (json \<times> string \<times> string) option" where
  "cache_entry primary secondary t =
     (case extraction primary secondary t of
        Inl e \<Rightarrow> None
      | Inr (rating, count) \<Rightarrow> Some (fst t, (format_rating rating, py_str count)))"

text \<open>A dict has each key once.\<close>

definition dict_keys_distinct :: "(json \<times> 'v) list \<Rightarrow> bool" where
  "dict_keys_distinct d = distinct (map (\<lambda>p. dict_key (fst p)) d)"

text \<open>Three targets; the extraction of the second one fails.\<close>

definition three_targets :: "(json \<times> string) list" where
  "three_targets =
     [(JStr ''https://g/1'', ''goodreads''), (JStr ''https://rr/2'', ''royalroad''),
      (JStr ''https://g/3'', ''goodreads'')]"

definition goodreads_pages :: extractor where
  "goodreads_pages url =
     (if url = JStr ''https://g/1'' then Inr (Finite False (9 / 2), 1234)
      else Inr (Finite False 4, 7))"

definition royalroad_down :: extractor where
  "royalroad_down url = Inl (FetchOrMarkupError ''RoyalRoad: score span with aria-label not found'')"

section \<open>Source resolver: priority\<close>

lemma pick_source_url_primary:
  assumes "present_nonempty (record_url r)"
  shows "pick_source_url r = Inr (Some ''goodreads'', the (record_url r))"
  using assms
  by (auto simp: pick_source_url_def present_nonempty_def record_url_def dict_get_def
      dict_get_default_def Let_def split: option.splits)

lemma pick_source_url_secondary:
  assumes "catalog_record r" and "\<not> truthy (dict_get r ''url'')"
  shows "pick_source_url r =
     Inr (if present_nonempty (vendor_url r) then (Some ''royalroad'', the (vendor_url r))
          else (None, JNull))"
  using assms
  by (auto simp: pick_source_url_def catalog_record_def mapping_or_empty_def vendor_url_def
      present_nonempty_def dict_get_def dict_get_default_def or_empty_dict_def attr_get_def
      Let_def split: option.splits json.splits)

lemma pick_source_url_spec:
  assumes "catalog_record r"
  shows "pick_source_url r = Inr (spec_resolve r)"
proof (cases "present_nonempty (record_url r)")
  case True
  then show ?thesis
    by (simp add: pick_source_url_primary spec_resolve_def)
next
  case False
  then have "\<not> truthy (dict_get r ''url'')"
    by (auto simp: present_nonempty_def record_url_def dict_get_def dict_get_default_def
        split: option.splits)
  from pick_source_url_secondary [OF assms this] False show ?thesis
    by (simp add: spec_resolve_def)
qed

text \<open>
  Claim C1. A record whose \<open>url\<close> is present and non-empty resolves to
  \<open>(goodreads, record.url)\<close>, whatever else it holds, so the primary source wins also
  when \<open>vendors.rr.url\<close> is configured. For every catalog record, the resolver returns
  what the specification's three-step rule returns: the primary pair when \<open>record.url\<close>
  is present and non-empty, otherwise the secondary pair \<open>(royalroad, vendors.rr.url)\<close>
  when that nested URL is present and non-empty, otherwise \<open>(None, None)\<close>.
\<close>

theorem pick_source_url_priority:
  "(present_nonempty (record_url r) \<longrightarrow>
      pick_source_url r = Inr (Some ''goodreads'', the (record_url r))) \<and>
   (catalog_record r \<longrightarrow>
      pick_source_url r =
        Inr (if present_nonempty (record_url r)
               then (Some ''goodreads'', the (record_url r))
             else if present_nonempty (vendor_url r)
               then (Some ''royalroad'', the (vendor_url r))
             else (None, JNull)))"
  using pick_source_url_primary [of r] pick_source_url_spec [of r]
  by (simp add: spec_resolve_def)

theorem pick_source_url_priority_witness:
  "present_nonempty (record_url both_urls) \<and> present_nonempty (vendor_url both_urls) \<and>
   catalog_record both_urls \<and>
   pick_source_url both_urls = Inr (Some ''goodreads'', JStr ''https://g/1'')"
  using pick_source_url_priority [of both_urls]
  by (simp add: both_urls_def present_nonempty_def record_url_def vendor_url_def
      catalog_record_def mapping_or_empty_def dict_get_def dict_get_default_def)

section \<open>Target builder: first-seen deduplication\<close>

lemma url_lookup_None_iff:
  "url_lookup d u = None \<longleftrightarrow> dict_key u \<notin> set (map (\<lambda>p. dict_key (fst p)) d)"
  by (induction d) (auto simp: py_eq_def)

lemma url_lookup_append:
  "url_lookup (d @ e) u = (case url_lookup d u of Some v \<Rightarrow> Some v | None \<Rightarrow> url_lookup e u)"
  by (induction d) auto

lemma url_lookup_cong:
  "py_eq k u \<Longrightarrow> url_lookup d k = url_lookup d u"
  by (induction d) (auto simp: py_eq_def)

lemma pick_source_url_Some:
  assumes "pick_source_url b = Inr (Some kind, url)"
  shows "truthy url \<and> kind \<noteq> []"
  using assms
  by (auto simp: pick_source_url_def Let_def split: if_splits sum.splits)

lemma pick_source_url_None:
  assumes "pick_source_url b = Inr (None, url)"
  shows "url = JNull"
  using assms
  by (auto simp: pick_source_url_def Let_def split: if_splits sum.splits)

lemma setdefault_lookup:
  assumes "setdefault d k v = Inr d'"
  shows "url_lookup d' u =
     (case url_lookup d u of Some w \<Rightarrow> Some w | None \<Rightarrow> if py_eq k u then Some v else None)"
  using assms url_lookup_cong [of k u d]
  by (auto simp: setdefault_def url_lookup_append split: if_splits option.splits)

lemma setdefault_distinct:
  assumes "setdefault d k v = Inr d'" and "distinct (map (\<lambda>p. dict_key (fst p)) d)"
  shows "distinct (map (\<lambda>p. dict_key (fst p)) d')"
  using assms
  by (auto simp: setdefault_def url_lookup_None_iff split: if_splits option.splits)

lemma setdefault_keys:
  assumes "setdefault d k v = Inr d'"
  shows "set (map fst d') \<subseteq> insert k (set (map fst d))"
  using assms by (auto simp: setdefault_def split: if_splits option.splits)

lemma build_targets_loop_lookup:
  assumes "build_targets_loop bs t = Inr t'"
  shows "url_lookup t' u = (case url_lookup t u of Some s \<Rightarrow> Some s | None \<Rightarrow> first_seen bs u)"
  using assms
proof (induction bs arbitrary: t)
  case Nil
  then show ?case by (simp split: option.splits)
next
  case (Cons b bs)
  show ?case
  proof (cases "pick_source_url b")
    case (Inl e)
    with Cons.prems show ?thesis by simp
  next
    case (Inr r)
    obtain source url where r: "r = (source, url)" by (cases r)
    show ?thesis
    proof (cases "\<not> source_truthy source \<or> \<not> truthy url")
      case True
      with Cons Inr r have "url_lookup t' u = (case url_lookup t u of Some s \<Rightarrow> Some s | None \<Rightarrow> first_seen bs u)"
        by simp
      moreover have "first_seen (b # bs) u = first_seen bs u"
      proof (cases source)
        case None
        with Inr r show ?thesis by simp
      next
        case (Some kind)
        with Inr r True pick_source_url_Some [of b kind url] show ?thesis
          by (simp add: source_truthy_def)
      qed
      ultimately show ?thesis by (simp del: first_seen.simps split: option.splits)
    next
      case False
      then obtain kind where k: "source = Some kind" 
        by (auto simp: source_truthy_def split: option.splits)
      from False Cons.prems Inr r obtain t1 where
        s: "setdefault t url kind = Inr t1" and l: "build_targets_loop bs t1 = Inr t'"
        by (auto simp: k split: sum.splits)
      from Cons.IH[OF l] setdefault_lookup[OF s] show ?thesis
        using Inr r k by (auto split: option.splits)
    qed
  qed
qed


lemma build_targets_loop_distinct:
  assumes "build_targets_loop bs t = Inr t'" and "distinct (map (\<lambda>p. dict_key (fst p)) t)"
  shows "distinct (map (\<lambda>p. dict_key (fst p)) t')"
  using assms
proof (induction bs arbitrary: t)
  case Nil
  then show ?case by simp
next
  case (Cons b bs)
  then show ?case
    by (auto split: sum.splits prod.splits if_splits dest: setdefault_distinct)
qed

lemma build_targets_loop_total:
  assumes "\<forall>b \<in> set bs. resolves b"
  shows "\<exists>t'. build_targets_loop bs t = Inr t'"
  using assms
proof (induction bs arbitrary: t)
  case Nil
  then show ?case by simp
next
  case (Cons b bs)
  from Cons.prems obtain source url where
    p: "pick_source_url b = Inr (source, url)" and h: "hashable url"
    by (auto simp: resolves_def split: sum.splits)
  from h obtain t1 where "setdefault t url (the source) = Inr t1"
    by (cases "url_lookup t url") (auto simp: setdefault_def)
  with Cons p show ?case by auto
qed

lemma build_targets_loop_skip:
  "build_targets_loop (filter (\<lambda>b. \<not> no_target b) bs) t = build_targets_loop bs t"
proof (induction bs arbitrary: t)
  case Nil
  then show ?case by simp
next
  case (Cons b bs)
  then show ?case
    by (auto simp: no_target_def source_truthy_def split: sum.splits)
qed

lemma entries_of_distinct:
  assumes "distinct (map (\<lambda>p. dict_key (fst p)) d)"
  shows "length (filter (\<lambda>p. py_eq (fst p) u) d) = (case url_lookup d u of None \<Rightarrow> 0 | Some _ \<Rightarrow> 1)"
  using assms
proof (induction d)
  case Nil
  then show ?case by simp
next
  case (Cons p d)
  show ?case
  proof (cases "py_eq (fst p) u")
    case True
    with Cons.prems have "dict_key u \<notin> set (map (\<lambda>p. dict_key (fst p)) d)"
      by (simp add: py_eq_def)
    then have "\<forall>q \<in> set d. \<not> py_eq (fst q) u"
      by (metis (mono_tags, lifting) image_eqI list.set_map py_eq_def)
    then have "filter (\<lambda>q. py_eq (fst q) u) d = []"
      by (simp add: filter_empty_conv)
    with True show ?thesis by simp
  next
    case False
    with Cons show ?thesis by simp
  qed
qed

text \<open>
  Claim C4. For every sequence of records, each of which resolves, \<open>build_targets\<close>
  returns a work list in which a URL is mapped to the source-kind of the first record of
  the sequence that resolves to it (first-seen wins, also when a later record resolves to
  the same URL with another source-kind), in which every URL some record resolves to has
  exactly one entry and no other URL has any, and which is the work list of the sequence
  without its records that have no resolvable target: those records contribute nothing
  and raise nothing.
\<close>

theorem build_targets_first_seen:
  assumes "\<forall>b \<in> set books. resolves b"
  shows "\<exists>t. build_targets books = Inr t \<and>
           (\<forall>u. url_lookup t u = first_seen books u) \<and>
           (\<forall>u. length (filter (\<lambda>p. py_eq (fst p) u) t) =
                  (case first_seen books u of None \<Rightarrow> 0 | Some kind \<Rightarrow> 1)) \<and>
           build_targets (filter (\<lambda>b. \<not> no_target b) books) = Inr t"
proof -
  from build_targets_loop_total [OF assms] obtain t where t: "build_targets_loop books [] = Inr t"
    by blast
  have l: "url_lookup t u = first_seen books u" for u
    using build_targets_loop_lookup [OF t, of u] by simp
  have "distinct (map (\<lambda>p. dict_key (fst p)) t)"
    using build_targets_loop_distinct [OF t] by simp
  then have "length (filter (\<lambda>p. py_eq (fst p) u) t) =
      (case first_seen books u of None \<Rightarrow> 0 | Some kind \<Rightarrow> 1)" for u
    using entries_of_distinct [of t u] by (simp add: l)
  with t l show ?thesis
    by (simp add: build_targets_def build_targets_loop_skip)
qed

lemma pick_examples:
  "pick_source_url g1 = Inr (Some ''goodreads'', JStr ''https://g/1'')"
  "pick_source_url no_url = Inr (None, JNull)"
  "pick_source_url rr_g1 = Inr (Some ''royalroad'', JStr ''https://g/1'')"
  "pick_source_url rr2 = Inr (Some ''royalroad'', JStr ''https://rr/2'')"
  by (simp_all add: g1_def no_url_def rr_g1_def rr2_def pick_source_url_def dict_get_def
      dict_get_default_def or_empty_dict_def attr_get_def)

theorem build_targets_first_seen_witness:
  "list_all resolves four_books \<and>
   build_targets four_books =
     Inr [(JStr ''https://g/1'', ''goodreads''), (JStr ''https://rr/2'', ''royalroad'')] \<and>
   first_seen four_books (JStr ''https://g/1'') = Some ''goodreads'' \<and>
   build_targets [g1, rr_g1, rr2] = build_targets four_books"
  using build_targets_first_seen [of four_books]
  by (simp add: four_books_def resolves_def pick_examples build_targets_def source_truthy_def
      setdefault_def py_eq_def no_target_def)

section \<open>Reconciler\<close>

lemma map_of_dict_set: "map_of (dict_set d k v) = (map_of d)(k \<mapsto> v)"
  by (induction d) (auto simp: fun_eq_iff)

lemma other_fields_dict_set:
  assumes "k = ''rating'' \<or> k = ''r_count''"
  shows "other_fields (dict_set d k v) = other_fields d"
  using assms by (induction d) (auto simp: other_fields_def)

lemma stored_overwrite_both:
  "stored (overwrite_both r p) ''rating'' = JStr (fst p)"
  "stored (overwrite_both r p) ''r_count'' = JStr (snd p)"
  by (simp_all add: stored_def overwrite_both_def map_of_dict_set)

lemma overwrite_both_neq:
  assumes "stored r ''rating'' \<noteq> JStr (fst p) \<or> stored r ''r_count'' \<noteq> JStr (snd p)"
  shows "overwrite_both r p \<noteq> r"
  using assms stored_overwrite_both [of r p] by auto

lemma apply_cache_body_reconcile:
  assumes "resolves b"
  shows "apply_cache_body cache b = Inr (reconcile cache b, reconcile cache b \<noteq> b)"
proof -
  from assms obtain kind url where
    p: "pick_source_url b = Inr (kind, url)" and h: "hashable url"
    by (auto simp: resolves_def split: sum.splits)
  then have u: "resolved_url b = url"
    by (simp add: resolved_url_def)
  show ?thesis
  proof (cases "truthy url")
    case False
    with p u show ?thesis by (simp add: apply_cache_body_def reconcile_def)
  next
    case True
    show ?thesis
    proof (cases "url_lookup cache url")
      case None
      with True p u h show ?thesis by (simp add: apply_cache_body_def reconcile_def)
    next
      case (Some pr)
      obtain rt ct where pr: "pr = (rt, ct)" by (cases pr)
      show ?thesis
      proof (cases "stored b ''rating'' \<noteq> JStr rt \<or> stored b ''r_count'' \<noteq> JStr ct")
        case d: True
        then have "overwrite_both b (rt, ct) \<noteq> b"
          using overwrite_both_neq [of b "(rt, ct)"] by simp
        with d True p u h Some pr show ?thesis
          by (simp add: apply_cache_body_def reconcile_def stored_def dict_get_default_def
              overwrite_both_def)
      next
        case d: False
        with True p u h Some pr show ?thesis
          by (simp add: apply_cache_body_def reconcile_def stored_def dict_get_default_def)
      qed
    qed
  qed
qed

lemma apply_cache_loop_reconcile:
  assumes "\<forall>b \<in> set books. resolves b"
  shows "apply_cache_loop books cache changed =
     (map (reconcile cache) books, Inr (changed \<or> (\<exists>b \<in> set books. reconcile cache b \<noteq> b)))"
  using assms
proof (induction books arbitrary: changed)
  case Nil
  then show ?case by simp
next
  case (Cons b books)
  then show ?case
    by (auto simp: apply_cache_body_reconcile)
qed

lemma reconcile_examples:
  "pick_source_url stale = Inr (Some ''goodreads'', JStr ''https://g/7'')"
  "pick_source_url fresh = Inr (Some ''royalroad'', JStr ''https://rr/2'')"
  "pick_source_url no_url = Inr (None, JNull)"
  "pick_source_url g1 = Inr (Some ''goodreads'', JStr ''https://g/1'')"
  "reconcile two_cached stale =
     [(''url'', JStr ''https://g/7''), (''rating'', JStr ''4.5''), (''r_count'', JStr ''1234'')]"
  "reconcile two_cached fresh = fresh"
  "reconcile two_cached no_url = no_url"
  "reconcile two_cached g1 = g1"
  by (simp_all add: stale_def fresh_def no_url_def g1_def two_cached_def reconcile_def
      resolved_url_def pick_source_url_def dict_get_def dict_get_default_def or_empty_dict_def
      attr_get_def py_eq_def stored_def overwrite_both_def)

lemma stale_differs:
  "[(''url'', JStr ''https://g/7''), (''rating'', JStr ''4.5''), (''r_count'', JStr ''1234'')] \<noteq> stale"
  by (simp add: stale_def)

lemma reconcile_post:
  assumes "truthy (resolved_url b)" and "url_lookup cache (resolved_url b) = Some p"
  shows "stored (reconcile cache b) ''rating'' = JStr (fst p) \<and>
         stored (reconcile cache b) ''r_count'' = JStr (snd p)"
  using assms by (auto simp: reconcile_def stored_overwrite_both)

text \<open>
  Claim C2. For every list of records, each of which resolves, and every cache,
  \<open>apply_cache\<close> leaves the list with every record reconciled as the specification
  says: a record whose resolved URL is absent or is no cache key is left as it is; a record
  whose URL is a cache key and whose stored rating or stored count differs from the cached
  pair (an absent field counting as the empty string) has both fields overwritten with
  the cached pair; a record whose two stored fields equal the cached pair is left as it
  is. The function returns \<open>True\<close> exactly when some record was modified. Afterwards the
  stored fields of every record whose URL is a cache key are the cached pair.
\<close>

theorem apply_cache_reconciles:
  assumes "\<forall>b \<in> set books. resolves b"
  shows "apply_cache books cache =
           (map (reconcile cache) books, Inr (\<exists>b \<in> set books. reconcile cache b \<noteq> b)) \<and>
         (\<forall>b \<in> set books. \<forall>p.
            truthy (resolved_url b) \<and> url_lookup cache (resolved_url b) = Some p \<longrightarrow>
              stored (reconcile cache b) ''rating'' = JStr (fst p) \<and>
              stored (reconcile cache b) ''r_count'' = JStr (snd p))"
  using apply_cache_loop_reconcile [OF assms, of cache False] reconcile_post
  by (simp add: apply_cache_def)

theorem apply_cache_reconciles_witness:
  "list_all resolves [stale, fresh, no_url, g1] \<and>
   apply_cache [stale, fresh, no_url, g1] two_cached =
     ([[(''url'', JStr ''https://g/7''), (''rating'', JStr ''4.5''), (''r_count'', JStr ''1234'')],
       fresh, no_url, g1], Inr True) \<and>
   list_all resolves [fresh, no_url, g1] \<and>
   apply_cache [fresh, no_url, g1] two_cached = ([fresh, no_url, g1], Inr False)"
  using apply_cache_reconciles [of "[stale, fresh, no_url, g1]" two_cached]
    apply_cache_reconciles [of "[fresh, no_url, g1]" two_cached]
  by (simp add: resolves_def reconcile_examples stale_differs)


section \<open>Reconciler: frame\<close>

lemma apply_cache_body_frame:
  assumes "apply_cache_body cache b = Inr (b', w)"
  shows "other_fields b' = other_fields b"
  using assms
  by (auto simp: apply_cache_body_def other_fields_dict_set
      split: sum.splits prod.splits if_splits option.splits)

lemma apply_cache_loop_frame:
  "length (fst (apply_cache_loop books cache changed)) = length books \<and>
   map other_fields (fst (apply_cache_loop books cache changed)) = map other_fields books"
proof (induction books arbitrary: changed)
  case Nil
  then show ?case by simp
next
  case (Cons b books)
  show ?case
  proof (cases "apply_cache_body cache b")
    case (Inl e)
    then show ?thesis by simp
  next
    case (Inr r)
    obtain b' w where r: "r = (b', w)" by (cases r)
    from Cons [of "changed \<or> w"] Inr r apply_cache_body_frame [of cache b b' w]
    show ?thesis by (simp add: case_prod_unfold Let_def)
  qed
qed

text \<open>
  Claim C9. For every list of records and every cache, whether \<open>apply_cache\<close> returns or
  raises, the list it leaves has as many records as before, and each record has, apart
  from its \<open>rating\<close> and \<open>r_count\<close> fields, the fields it had: the same keys with the same
  values (nested vendor structures and extra fields included) in the same order.
\<close>

theorem apply_cache_frame:
  "length (fst (apply_cache books cache)) = length books \<and>
   map other_fields (fst (apply_cache books cache)) = map other_fields books"
  by (simp add: apply_cache_def apply_cache_loop_frame)

section \<open>Integer normaliser\<close>

lemma horner_snoc:
  "foldl (\<lambda>acc c. 10 * acc + digit_value c) a (ds @ [c]) =
   10 * foldl (\<lambda>acc c. 10 * acc + digit_value c) a ds + digit_value c"
  by simp



section \<open>Ratings count of the secondary site\<close>

lemma is_space_lower_char: "is_space (lower_char c) \<longleftrightarrow> is_space c"
proof -
  have "(of_char c :: nat) < 256" by simp
  then show ?thesis
    unfolding is_space_def lower_char_def Let_def
    by (auto simp: of_char_of)
qed

lemma lower_char_space: "is_space c \<Longrightarrow> lower_char c = c"
  unfolding is_space_def lower_char_def Let_def by auto

lemma single_spaced_Cons: "single_spaced (c # cs) \<Longrightarrow> single_spaced cs"
  by (cases cs) auto

lemma single_spaced_append:
  "single_spaced (xs @ ys) \<Longrightarrow> single_spaced xs \<and> single_spaced ys"
proof (induction xs rule: single_spaced.induct)
  case 1
  then show ?case by simp
next
  case (2 c)
  then show ?case by (cases ys) auto
next
  case (3 a b cs)
  then show ?case by auto
qed

lemma collapse_ws_head:
  "s = [] \<or> \<not> is_space (hd s) \<Longrightarrow> collapse_ws s = [] \<or> \<not> is_space (hd (collapse_ws s))"
  by (cases s) auto

lemma dropWhile_head: "dropWhile P s = [] \<or> \<not> P (hd (dropWhile P s))"
  using hd_dropWhile [of P s] by blast

lemma single_spaced_collapse_ws: "single_spaced (collapse_ws s)"
proof (induction s rule: collapse_ws.induct)
  case 1
  then show ?case by simp
next
  case (2 c cs)
  show ?case
  proof (cases "is_space c")
    case True
    let ?r = "collapse_ws (dropWhile is_space cs)"
    from collapse_ws_head [OF dropWhile_head [of is_space cs]]
    have h: "?r = [] \<or> \<not> is_space (hd ?r)" .
    from 2 True have s: "single_spaced ?r" by simp
    from h s True show ?thesis by (cases ?r) auto
  next
    case False
    with 2 have "single_spaced (collapse_ws cs)" by simp
    with False show ?thesis by (cases "collapse_ws cs") auto
  qed
qed

lemma single_spaced_dropWhile: "single_spaced s \<Longrightarrow> single_spaced (dropWhile P s)"
  using single_spaced_append [of "takeWhile P s" "dropWhile P s"] by simp

lemma rstrip_decomp: "s = rstrip s @ rev (takeWhile is_space (rev s))"
proof -
  have "rev (takeWhile is_space (rev s) @ dropWhile is_space (rev s)) = s"
    by (simp only: takeWhile_dropWhile_id rev_rev_ident)
  then show ?thesis by (simp only: rstrip_def rev_append)
qed

lemma single_spaced_rstrip: "single_spaced s \<Longrightarrow> single_spaced (rstrip s)"
  using single_spaced_append [of "rstrip s" "rev (takeWhile is_space (rev s))"] rstrip_decomp [of s]
  by simp

lemma strip_rstrip: "strip s = rstrip (dropWhile is_space s)"
  by (simp add: strip_def rstrip_def)

lemma single_spaced_strip: "single_spaced s \<Longrightarrow> single_spaced (strip s)"
  by (simp add: strip_rstrip single_spaced_rstrip single_spaced_dropWhile)

lemma single_spaced_lower: "single_spaced s \<Longrightarrow> single_spaced (lower s)"
  unfolding lower_def
proof (induction s rule: single_spaced.induct)
  case 1
  then show ?case by simp
next
  case (2 c)
  then show ?case by (auto simp: is_space_lower_char lower_char_space)
next
  case (3 a b cs)
  then show ?case by (auto simp: is_space_lower_char lower_char_space)
qed

lemma single_spaced_normalise_key: "single_spaced (normalise_key key)"
  by (simp add: normalise_key_def single_spaced_lower single_spaced_strip single_spaced_collapse_ws)

lemma all_space_single:
  assumes "single_spaced w" and "\<forall>c \<in> set w. is_space c"
  shows "w = [] \<or> w = '' ''"
proof (cases w)
  case Nil
  then show ?thesis by simp
next
  case (Cons a as)
  with assms show ?thesis by (cases as) auto
qed

lemma rstrip_eq_D:
  assumes "rstrip u = v"
  shows "\<exists>w. u = v @ w \<and> (\<forall>c \<in> set w. is_space c)"
proof -
  have "\<forall>c \<in> set (rev (takeWhile is_space (rev u))). is_space c"
    by (auto dest: set_takeWhileD)
  with rstrip_decomp [of u] assms show ?thesis by metis
qed

lemma strip_trailing_colon_ratings:
  assumes "single_spaced t"
  shows "strip_trailing_colon t = ''ratings'' \<longleftrightarrow> is_ratings_key t"
proof
  assume "is_ratings_key t"
  then show "strip_trailing_colon t = ''ratings''"
    by (auto simp: is_ratings_key_def strip_trailing_colon_def rstrip_def is_space_def)
next
  assume a: "strip_trailing_colon t = ''ratings''"
  show "is_ratings_key t"
  proof (cases "t \<noteq> [] \<and> last t = CHR '':''")
    case False
    with a show ?thesis by (auto simp: strip_trailing_colon_def is_ratings_key_def)
  next
    case True
    with a have "rstrip (butlast t) = ''ratings''" by (simp add: strip_trailing_colon_def)
    from rstrip_eq_D [OF this] obtain w where
      w: "butlast t = ''ratings'' @ w" "\<forall>c \<in> set w. is_space c" by blast
    from True have t: "t = butlast t @ '':''" 
      using append_butlast_last_id [of t] by simp
    with w have t': "t = ''ratings'' @ (w @ '':'')" by simp
    with assms have "single_spaced (w @ '':'')"
      using single_spaced_append [of "''ratings''" "w @ '':''"] by simp
    then have "single_spaced w" using single_spaced_append by blast
    from all_space_single [OF this w(2)] t' show ?thesis
      by (auto simp: is_ratings_key_def)
  qed
qed

lemma spec_label_ratings: "spec_label key = ''ratings'' \<longleftrightarrow> is_ratings_key (normalise_key key)"
  using strip_trailing_colon_ratings [OF single_spaced_normalise_key, of key]
  by (simp add: spec_label_def normalise_key_def)


lemma royalroad_rating_count_found:
  assumes "\<forall>k \<in> set pre. spec_label k \<noteq> ''ratings''" and "spec_label key = ''ratings''"
  shows "royalroad_rating_count (pre @ key # val # post) = clean_int val"
  using assms
proof (induction pre)
  case Nil
  then show ?case by (simp add: spec_label_ratings)
next
  case (Cons p ps)
  then have "\<not> is_ratings_key (normalise_key p)" by (simp add: spec_label_ratings)
  moreover obtain x xs where "ps @ key # val # post = x # xs" by (cases ps) auto
  ultimately show ?case using Cons by simp
qed

lemma royalroad_rating_count_not_found:
  assumes "\<forall>k \<in> set (butlast lis). spec_label k \<noteq> ''ratings''"
  shows "royalroad_rating_count lis = Inl RatingsCountNotFound"
  using assms
  by (induction lis rule: royalroad_rating_count.induct) (auto simp: spec_label_ratings)

text \<open>
  Claim C5. For every sequence of list-item texts: when an item whose normalised text
  (whitespace collapsed, case folded, trailing colon stripped) equals \<open>ratings\<close> is
  followed by another item, and no item before it is such a label, the extractor returns
  what \<open>clean_int\<close> makes of the text of the item that follows it; when no item but
  possibly the last is such a label, so that no label exists or the one that exists has
  no following item, it fails with the error that the ratings count was not found.
\<close>

theorem royalroad_rating_count_rule:
  "(\<forall>pre key val post.
      lis = pre @ key # val # post \<and> spec_label key = ''ratings'' \<and>
      (\<forall>k \<in> set pre. spec_label k \<noteq> ''ratings'') \<longrightarrow>
        royalroad_rating_count lis = clean_int val) \<and>
   ((\<forall>k \<in> set (butlast lis). spec_label k \<noteq> ''ratings'') \<longrightarrow>
      royalroad_rating_count lis = Inl RatingsCountNotFound)"
  using royalroad_rating_count_found royalroad_rating_count_not_found by blast

lemma label_examples:
  "spec_label ''Ratings :'' = ''ratings''"
  "spec_label ''Followers :'' \<noteq> ''ratings''"
  "spec_label ''1,024'' \<noteq> ''ratings''"
  "spec_label ''  RATINGS:'' = ''ratings''"
  by code_simp+

theorem royalroad_rating_count_rule_witness:
  "spec_label ''Ratings :'' = ''ratings'' \<and>
   list_all (\<lambda>k. spec_label k \<noteq> ''ratings'') [''Followers :'', ''1,024''] \<and>
   royalroad_rating_count [''Followers :'', ''1,024'', ''Ratings :'', ''312'', ''Pages :''] = Inr 312 \<and>
   list_all (\<lambda>k. spec_label k \<noteq> ''ratings'') (butlast [''Followers :'', ''1,024'', ''  RATINGS:'']) \<and>
   royalroad_rating_count [''Followers :'', ''1,024'', ''  RATINGS:''] = Inl RatingsCountNotFound"
proof -
  let ?found = "[''Followers :'', ''1,024'', ''Ratings :'', ''312'', ''Pages :'']"
  let ?last = "[''Followers :'', ''1,024'', ''  RATINGS:'']"
  have c: "clean_int ''312'' = Inr 312"
    by (simp add: clean_int_def is_digit_def py_int_def digit_value_def)
  have "?found = [''Followers :'', ''1,024''] @ ''Ratings :'' # ''312'' # [''Pages :''] \<and>
        spec_label ''Ratings :'' = ''ratings'' \<and>
        (\<forall>k \<in> set [''Followers :'', ''1,024'']. spec_label k \<noteq> ''ratings'') \<longrightarrow>
        royalroad_rating_count ?found = clean_int ''312''"
    using royalroad_rating_count_rule [of ?found] by blast
  then have f: "royalroad_rating_count ?found = Inr 312"
    using label_examples by (simp add: c)
  have "(\<forall>k \<in> set (butlast ?last). spec_label k \<noteq> ''ratings'') \<longrightarrow>
        royalroad_rating_count ?last = Inl RatingsCountNotFound"
    using royalroad_rating_count_rule [of ?last] by blast
  then have n: "royalroad_rating_count ?last = Inl RatingsCountNotFound"
    using label_examples by simp
  from f n label_examples show ?thesis by simp
qed

section \<open>Trimming, comma replacement and the float grammar\<close>

lemma is_space_replace: "is_space (if c = CHR '','' then CHR ''.'' else c) \<longleftrightarrow> is_space c"
  by (auto simp: is_space_def)

lemma dropWhile_replace_commas:
  "dropWhile is_space (replace_commas s) = replace_commas (dropWhile is_space s)"
  by (induction s) (auto simp: replace_commas_def is_space_def)

lemma rev_replace_commas: "rev (replace_commas s) = replace_commas (rev s)"
  by (simp add: replace_commas_def rev_map)

lemma strip_replace_commas: "strip (replace_commas s) = replace_commas (strip s)"
  by (simp add: strip_def dropWhile_replace_commas rev_replace_commas)

lemma dropWhile_rev_last:
  assumes "s \<noteq> []" and "\<not> P (last s)"
  shows "dropWhile P (rev s) = rev s"
proof -
  from assms have "rev s \<noteq> []" and "\<not> P (hd (rev s))" by (simp_all add: hd_rev)
  then show ?thesis by (cases "rev s") auto
qed

lemma strip_fixed:
  assumes "s = [] \<or> (\<not> is_space (hd s) \<and> \<not> is_space (last s))"
  shows "strip s = s"
proof (cases s)
  case Nil
  then show ?thesis by (simp add: strip_def)
next
  case (Cons c cs)
  with assms have h: "\<not> is_space (hd s)" and l: "\<not> is_space (last s)" by auto
  from Cons h have "dropWhile is_space s = s" by simp
  moreover have "s \<noteq> []" using Cons by simp
  with l have "dropWhile is_space (rev s) = rev s"
    using dropWhile_rev_last [of s is_space] by blast
  ultimately show ?thesis by (simp add: strip_def)
qed

lemma strip_ends: "strip s = [] \<or> (\<not> is_space (hd (strip s)) \<and> \<not> is_space (last (strip s)))"
proof -
  let ?d = "dropWhile is_space s"
  let ?r = "dropWhile is_space (rev ?d)"
  show ?thesis
  proof (cases "?r = []")
    case True
    then show ?thesis by (simp add: strip_def)
  next
    case False
    then have l: "\<not> is_space (hd ?r)" using hd_dropWhile [of is_space "rev ?d"] by simp
    from False have "last (rev ?r) = hd ?r" by (simp add: last_rev)
    with l have a: "\<not> is_space (last (strip s))" by (simp add: strip_def)
    have dec: "rev ?d = takeWhile is_space (rev ?d) @ ?r" by simp
    then have "?d = rev ?r @ rev (takeWhile is_space (rev ?d))"
      by (metis rev_append rev_rev_ident)
    moreover from False have "rev ?r \<noteq> []" by simp
    ultimately have "hd ?d = hd (rev ?r)" by (metis hd_append2)
    moreover have "?d \<noteq> []"
    proof
      assume "?d = []"
      then have "?r = []" by (simp only: rev.simps(1) dropWhile.simps(1))
      with False show False by simp
    qed
    then have "\<not> is_space (hd ?d)" using hd_dropWhile [of is_space s] by simp
    ultimately have "\<not> is_space (hd (strip s))" by (simp add: strip_def)
    with a show ?thesis by simp
  qed
qed

lemma strip_idem: "strip (strip s) = strip s"
  using strip_fixed [OF strip_ends] .

lemma strip_surrounded:
  assumes "\<forall>c \<in> set l \<union> set r. is_space c"
    and "core = [] \<or> (\<not> is_space (hd core) \<and> \<not> is_space (last core))"
  shows "strip (l @ core @ r) = core"
proof (cases core)
  case Nil
  with assms(1) have "\<forall>c \<in> set (l @ core @ r). is_space c" by auto
  then have "dropWhile is_space (l @ core @ r) = []"
    by (simp only: dropWhile_eq_Nil_conv)
  then have "strip (l @ core @ r) = []"
    by (simp only: strip_def rev.simps(1) dropWhile.simps(1))
  with Nil show ?thesis by (simp only:)
next
  case (Cons c cs)
  with assms(2) have h: "\<not> is_space c" and la: "\<not> is_space (last core)" by auto
  from assms(1) have "dropWhile is_space (l @ core @ r) = dropWhile is_space (core @ r)"
    by (simp add: dropWhile_append2)
  also from Cons h have "\<dots> = core @ r" by simp
  finally have d: "dropWhile is_space (l @ core @ r) = core @ r" .
  have "dropWhile is_space (rev r @ rev core) = dropWhile is_space (rev core)"
    by (rule dropWhile_append2) (use assms(1) in auto)
  moreover have "core \<noteq> []" using Cons by simp
  with la have "dropWhile is_space (rev core) = rev core"
    using dropWhile_rev_last [of core is_space] by blast
  ultimately show ?thesis using d by (simp add: strip_def)
qed

lemma clean_float_unfold: "clean_float text = py_float (replace_commas (strip text))"
  by (simp add: clean_float_def)

lemma py_float_stripped:
  "py_float (replace_commas (strip text)) =
     (case parse_float (replace_commas (strip text)) of
        None \<Rightarrow> Inl (CouldNotConvertFloat (replace_commas (strip text)))
      | Some x \<Rightarrow> Inr x)"
  by (simp add: py_float_def strip_replace_commas strip_idem)

lemma digitpart_chars:
  "digitpart s = Some ds \<Longrightarrow> \<forall>c \<in> set s. is_digit c \<or> c = CHR ''_''"
  by (induction s arbitrary: ds rule: digitpart.induct) (auto split: if_splits)

lemma not_digit_point: "\<not> is_digit CHR ''.''" "CHR ''.'' \<noteq> CHR ''_''"
  by (simp_all add: is_digit_def)

lemma digitpart_point: "CHR ''.'' \<in> set s \<Longrightarrow> digitpart s = None"
  using digitpart_chars [of s] not_digit_point by (cases "digitpart s") auto

lemma split_at_None:
  assumes "\<forall>c \<in> set s. \<not> P c"
  shows "split_at P s = (s, None)"
proof -
  from assms have "dropWhile (\<lambda>c. \<not> P c) s = []"
    by (simp only: dropWhile_eq_Nil_conv)
  then show ?thesis by (simp only: split_at_def list.case)
qed

lemma split_at_Some:
  assumes "\<exists>c \<in> set s. P c"
  shows "\<exists>pre c post. s = pre @ c # post \<and> P c \<and> (\<forall>x \<in> set pre. \<not> P x) \<and>
           split_at P s = (pre, Some post)"
proof -
  let ?d = "dropWhile (\<lambda>c. \<not> P c) s"
  from assms have "?d \<noteq> []" by (auto simp: dropWhile_eq_Nil_conv)
  then obtain c post where d: "?d = c # post" by (cases ?d) auto
  then have "P c" using hd_dropWhile [of "\<lambda>c. \<not> P c" s] by auto
  moreover have "s = takeWhile (\<lambda>c. \<not> P c) s @ ?d" by simp
  moreover have "\<forall>x \<in> set (takeWhile (\<lambda>c. \<not> P c) s). \<not> P x"
    by (auto dest: set_takeWhileD)
  ultimately show ?thesis using d by (auto simp: split_at_def)
qed

lemma points_append: "points (a @ b) = points a + points b"
  by (simp add: points_def)

lemma points_pos: "0 < points s \<longleftrightarrow> CHR ''.'' \<in> set s"
  by (auto simp: points_def filter_empty_conv)

lemma points_0: "(\<forall>x \<in> set s. x \<noteq> CHR ''.'') \<Longrightarrow> points s = 0"
  by (simp add: points_def filter_empty_conv)

lemma mantissa_two_points:
  assumes "2 \<le> points m"
  shows "parse_mantissa m = None"
proof -
  from assms have "\<exists>c \<in> set m. c = CHR ''.''" using points_pos [of m] by auto
  from split_at_Some [of m "\<lambda>c. c = CHR ''.''", OF this] obtain ip fp where
    m: "m = ip @ CHR ''.'' # fp" and ip: "\<forall>x \<in> set ip. x \<noteq> CHR ''.''"
    and s: "split_at (\<lambda>c. c = CHR ''.'') m = (ip, Some fp)" by auto
  from m have "points m = points ip + 1 + points fp"
    by (simp add: points_def)
  with assms points_0 [OF ip] have "0 < points fp" by simp
  then have "CHR ''.'' \<in> set fp" by (simp add: points_pos)
  then have "digitpart fp = None" and "fp \<noteq> []" by (auto simp: digitpart_point)
  with s show ?thesis by (simp add: parse_mantissa_def split: option.splits)
qed

lemma exponent_point:
  assumes "CHR ''.'' \<in> set x"
  shows "parse_exponent x = None"
proof (cases x)
  case Nil
  then show ?thesis by (simp add: parse_exponent_def)
next
  case (Cons c ds)
  show ?thesis
  proof (cases "c = CHR ''-'' \<or> c = CHR ''+''")
    case True
    with assms Cons have "CHR ''.'' \<in> set ds" by auto
    then have "digitpart ds = None" by (rule digitpart_point)
    with True Cons show ?thesis by (auto simp: parse_exponent_def)
  next
    case False
    from assms have "digitpart x = None" by (rule digitpart_point)
    with False Cons show ?thesis by (auto simp: parse_exponent_def)
  qed
qed

lemma number_two_points:
  assumes "2 \<le> points a"
  shows "parse_number a = None"
proof (cases "\<exists>c \<in> set a. c = CHR ''e'' \<or> c = CHR ''E''")
  case False
  then have "split_at (\<lambda>c. c = CHR ''e'' \<or> c = CHR ''E'') a = (a, None)"
    by (intro split_at_None) auto
  with mantissa_two_points [OF assms] show ?thesis by (simp add: parse_number_def)
next
  case True
  from split_at_Some [of a "\<lambda>c. c = CHR ''e'' \<or> c = CHR ''E''", OF True] obtain m c x where
    a: "a = m @ c # x" and c: "c = CHR ''e'' \<or> c = CHR ''E''"
    and s: "split_at (\<lambda>c. c = CHR ''e'' \<or> c = CHR ''E'') a = (m, Some x)" by auto
  from a c have p: "points a = points m + points x" by (auto simp: points_def)
  show ?thesis
  proof (cases "0 < points x")
    case True
    then have "parse_exponent x = None" by (simp add: points_pos exponent_point)
    with s show ?thesis by (simp add: parse_number_def split: option.splits)
  next
    case False
    with p assms have "2 \<le> points m" by simp
    from mantissa_two_points [OF this] s show ?thesis by (simp add: parse_number_def)
  qed
qed

lemma lower_point: "CHR ''.'' \<in> set a \<Longrightarrow> CHR ''.'' \<in> set (lower a)"
proof -
  have "lower_char CHR ''.'' = CHR ''.''" by (simp add: lower_char_def)
  then show "CHR ''.'' \<in> set a \<Longrightarrow> CHR ''.'' \<in> set (lower a)"
    by (force simp: lower_def)
qed

lemma float_two_points:
  assumes "2 \<le> points t"
  shows "parse_float t = None"
proof -
  obtain s a where sa: "split_sign t = (s, a)" by (cases "split_sign t")
  then have "points a = points t"
    by (auto simp: split_sign_def points_def split: list.splits if_splits)
  with assms have a: "2 \<le> points a" by simp
  then have "CHR ''.'' \<in> set a" using points_pos [of a] by simp
  then have "CHR ''.'' \<in> set (lower a)" by (rule lower_point)
  then have "lower a \<noteq> ''inf''" "lower a \<noteq> ''infinity''" "lower a \<noteq> ''nan''" by auto
  with sa number_two_points [OF a] show ?thesis by (simp add: parse_float_def)
qed

lemma points_replace_commas:
  "points (replace_commas s) = length (filter (\<lambda>c. c = CHR '','' \<or> c = CHR ''.'') s)"
  by (induction s) (auto simp: points_def replace_commas_def)

lemma clean_float_two_separators:
  assumes "2 \<le> length (filter (\<lambda>c. c = CHR '','' \<or> c = CHR ''.'') (strip text))"
  shows "clean_float text = Inl (CouldNotConvertFloat (replace_commas (strip text)))"
  using float_two_points [of "replace_commas (strip text)"] assms
  by (simp add: clean_float_unfold py_float_stripped points_replace_commas)

lemma digit_not_special:
  assumes "is_digit c"
  shows "c \<noteq> CHR ''_''" "c \<noteq> CHR ''.''" "c \<noteq> CHR ''e''" "c \<noteq> CHR ''E''"
    "c \<noteq> CHR ''-''" "c \<noteq> CHR ''+''" "lower_char c = c" "\<not> is_space c"
  using assms by (auto simp: is_digit_def lower_char_def is_space_def)

lemma not_digit_chars:
  "\<not> is_digit CHR ''e''" "\<not> is_digit CHR ''E''" "\<not> is_digit CHR '',''"
  "\<not> is_digit CHR ''.''" "\<not> is_digit CHR ''-''"
  by (simp_all add: is_digit_def)

lemma digitpart_digits:
  assumes "ds \<noteq> []" and "list_all is_digit ds"
  shows "digitpart ds = Some ds"
  using assms
  by (induction ds rule: digitpart.induct) (auto simp: digit_not_special)

lemma split_at_first:
  assumes "\<forall>x \<in> set pre. \<not> P x" and "P c"
  shows "split_at P (pre @ c # post) = (pre, Some post)"
proof -
  from assms have "dropWhile (\<lambda>c. \<not> P c) (pre @ c # post) = c # post"
    by (simp add: dropWhile_append2)
  moreover from assms have "takeWhile (\<lambda>c. \<not> P c) (pre @ c # post) = pre"
    by (simp add: takeWhile_append2)
  ultimately show ?thesis by (simp add: split_at_def)
qed

lemma parse_mantissa_decimal:
  assumes "ip \<noteq> []" "list_all is_digit ip" "fp \<noteq> []" "list_all is_digit fp"
  shows "parse_mantissa (ip @ CHR ''.'' # fp) = Some (ip, fp)"
proof -
  from assms(2) have "\<forall>x \<in> set ip. \<not> x = CHR ''.''"
    by (auto simp: list_all_iff digit_not_special)
  then have "split_at (\<lambda>c. c = CHR ''.'') (ip @ CHR ''.'' # fp) = (ip, Some fp)"
    by (intro split_at_first) auto
  with assms show ?thesis
    by (simp add: parse_mantissa_def digitpart_digits)
qed

lemma parse_mantissa_integer:
  assumes "ip \<noteq> []" "list_all is_digit ip"
  shows "parse_mantissa ip = Some (ip, [])"
proof -
  from assms(2) have "\<forall>x \<in> set ip. \<not> x = CHR ''.''"
    by (auto simp: list_all_iff digit_not_special)
  then have "split_at (\<lambda>c. c = CHR ''.'') ip = (ip, None)"
    by (rule split_at_None)
  with assms show ?thesis
    by (simp add: parse_mantissa_def digitpart_digits)
qed

lemma parse_number_decimal:
  assumes "ip \<noteq> []" "list_all is_digit ip" "fp \<noteq> []" "list_all is_digit fp"
  shows "parse_number (ip @ CHR ''.'' # fp) =
         Some (of_int (py_int (ip @ fp)) * 10 powi (- int (length fp)))"
proof -
  from assms(2,4) have "\<forall>x \<in> set (ip @ CHR ''.'' # fp). \<not> (x = CHR ''e'' \<or> x = CHR ''E'')"
    by (auto simp: list_all_iff not_digit_chars)
  then have "split_at (\<lambda>c. c = CHR ''e'' \<or> c = CHR ''E'') (ip @ CHR ''.'' # fp) =
      (ip @ CHR ''.'' # fp, None)"
    by (rule split_at_None)
  with parse_mantissa_decimal [OF assms] show ?thesis
    by (simp add: parse_number_def)
qed

lemma parse_number_integer:
  assumes "ip \<noteq> []" "list_all is_digit ip"
  shows "parse_number ip = Some (of_int (py_int ip))"
proof -
  from assms(2) have "\<forall>x \<in> set ip. \<not> (x = CHR ''e'' \<or> x = CHR ''E'')"
    by (auto simp: list_all_iff not_digit_chars)
  then have "split_at (\<lambda>c. c = CHR ''e'' \<or> c = CHR ''E'') ip = (ip, None)"
    by (rule split_at_None)
  with parse_mantissa_integer [OF assms] show ?thesis
    by (simp add: parse_number_def)
qed

lemma parse_float_plain:
  assumes "a \<noteq> []" "is_digit (hd a)" "parse_number a = Some v"
  shows "parse_float a = Some (round_double False v)"
    and "parse_float (CHR ''-'' # a) = Some (round_double True v)"
proof -
  from assms(1,2) obtain c cs where a: "a = c # cs" and c: "is_digit c" by (cases a) auto
  then have h: "hd (lower a) = c" by (simp add: lower_def digit_not_special)
  have n: "lower a \<noteq> ''inf''" "lower a \<noteq> ''infinity''" "lower a \<noteq> ''nan''"
    using h c by (auto simp: is_digit_def)
  from a c have s: "split_sign a = (False, a)"
    by (simp add: split_sign_def digit_not_special)
  with n assms(3) show "parse_float a = Some (round_double False v)"
    by (simp add: parse_float_def)
  have "split_sign (CHR ''-'' # a) = (True, a)" by (simp add: split_sign_def)
  with n assms(3) show "parse_float (CHR ''-'' # a) = Some (round_double True v)"
    by (simp add: parse_float_def)
qed

lemma clean_float_comma_decimal:
  assumes "ip \<noteq> []" "list_all is_digit ip" "fp \<noteq> []" "list_all is_digit fp"
  shows "clean_float (ip @ CHR '','' # fp) =
         Inr (round_double False (of_int (py_int (ip @ fp)) / 10 ^ length fp))"
proof -
  let ?t = "ip @ CHR '','' # fp"
  from assms have e: "\<not> is_space (hd ?t)" "\<not> is_space (last ?t)"
    by (auto simp: list_all_iff digit_not_special hd_append last_append)
  then have "strip ?t = ?t" by (intro strip_fixed) simp
  moreover have "replace_commas ds = ds" if "list_all is_digit ds" for ds
  proof -
    from that have "\<forall>x \<in> set ds. x \<noteq> CHR '',''"
      using not_digit_chars(3) by (auto simp: list_all_iff)
    then show ?thesis by (simp add: replace_commas_def map_idI)
  qed
  with assms(2,4) have "replace_commas ?t = ip @ CHR ''.'' # fp"
    by (simp add: replace_commas_def)
  moreover have "ip @ CHR ''.'' # fp \<noteq> []" "is_digit (hd (ip @ CHR ''.'' # fp))"
    using assms by (auto simp: hd_append list_all_iff)
  from parse_float_plain(1) [OF this parse_number_decimal [OF assms]]
  have "parse_float (ip @ CHR ''.'' # fp) =
      Some (round_double False (of_int (py_int (ip @ fp)) * 10 powi (- int (length fp))))" .
  ultimately show ?thesis
    using py_float_stripped [of ?t]
    by (simp add: clean_float_unfold power_int_minus field_simps)
qed

section \<open>Decimal normaliser\<close>

lemma clean_float_error_iff:
  "(\<exists>e. clean_float text = Inl e) \<longleftrightarrow> parse_float (replace_commas (strip text)) = None"
  by (simp add: clean_float_unfold py_float_stripped split: option.splits)

lemma clean_float_surrounded:
  assumes "\<forall>c \<in> set l \<union> set r. is_space c"
    and "core = [] \<or> (\<not> is_space (hd core) \<and> \<not> is_space (last core))"
  shows "clean_float (l @ core @ r) = py_float (replace_commas core)"
  using strip_surrounded [OF assms] by (simp add: clean_float_unfold)

text \<open>
  Claim C8. For every input string, \<open>clean_float\<close> trims the surrounding whitespace
  (a text that is a core between two runs of whitespace is parsed as its core), replaces
  the comma by a period and parses the result as a floating-point number: digits, a
  comma and digits give the binary64 number nearest to the decimal value that the text
  with a period denotes. It fails, with the parse error of \<open>float\<close>, exactly when the
  trimmed text with its commas replaced is not a floating-point literal. In particular
  \<open>clean_float "4,50"\<close> is \<open>4.5\<close>.
\<close>

theorem clean_float_rule:
  "((\<forall>c \<in> set l \<union> set r. is_space c) \<and>
    (core = [] \<or> (\<not> is_space (hd core) \<and> \<not> is_space (last core))) \<longrightarrow>
      clean_float (l @ core @ r) = py_float (replace_commas core)) \<and>
   (ip \<noteq> [] \<and> list_all is_digit ip \<and> fp \<noteq> [] \<and> list_all is_digit fp \<longrightarrow>
      clean_float (ip @ CHR '','' # fp) =
        Inr (round_double False (of_int (py_int (ip @ fp)) / 10 ^ length fp))) \<and>
   ((\<exists>e. clean_float text = Inl e) \<longleftrightarrow> parse_float (replace_commas (strip text)) = None) \<and>
   clean_float ''4,50'' = Inr (Finite False (9 / 2))"
proof -
  have "clean_float ''4,50'' = Inr (Finite False (9 / 2))" by code_simp
  then show ?thesis
    using clean_float_surrounded [of l r core] clean_float_comma_decimal [of ip fp]
      clean_float_error_iff [of "text"]
    by blast
qed

theorem clean_float_rule_witness:
  "list_all is_space ''  '' \<and> list_all is_space '' '' \<and>
   \<not> is_space (hd ''4,50'') \<and> \<not> is_space (last ''4,50'') \<and>
   clean_float (''  '' @ ''4,50'' @ '' '') = py_float ''4.50'' \<and>
   py_float ''4.50'' = Inr (Finite False (9 / 2)) \<and>
   list_all is_digit ''4'' \<and> list_all is_digit ''50'' \<and>
   clean_float ''4,50'' = Inr (round_double False (of_int (py_int ''450'') / 10 ^ 2)) \<and>
   round_double False (of_int (py_int ''450'') / 10 ^ 2) = Finite False (9 / 2)"
proof -
  have s: "list_all is_space ''  ''" "list_all is_space '' ''"
    "\<not> is_space (hd ''4,50'')" "\<not> is_space (last ''4,50'')"
    by code_simp+
  have d: "list_all is_digit ''4''" "list_all is_digit ''50''" by code_simp+
  have r: "replace_commas ''4,50'' = ''4.50''" by code_simp
  have p: "py_float ''4.50'' = Inr (Finite False (9 / 2))" by code_simp
  have v: "round_double False (of_int (py_int ''450'') / 10 ^ 2) = Finite False (9 / 2)"
    by code_simp
  from clean_float_rule [of "''  ''" "'' ''" "''4,50''" "''4''" "''50''" "[]"] s d
  have "clean_float (''  '' @ ''4,50'' @ '' '') = py_float (replace_commas ''4,50'')"
    and "clean_float (''4'' @ CHR '','' # ''50'') =
      Inr (round_double False (of_int (py_int (''4'' @ ''50'')) / 10 ^ length ''50''))"
    by (simp_all add: list_all_iff)
  with s d r p v show ?thesis by simp
qed

section \<open>Decimal normaliser: several separators\<close>

text \<open>
  Claim C10. \<open>clean_float\<close> replaces every comma of the trimmed input by a period, not
  only one decimal separator. So an input whose trimmed text holds two or more commas
  or periods, such as a comma as thousands separator together with a decimal point,
  raises the parse error: \<open>clean_float "1,234.5"\<close> fails on \<open>"1.234.5"\<close>, while
  \<open>float "1234.5"\<close> would be \<open>1234.5\<close>.
\<close>

theorem clean_float_every_comma:
  "clean_float text =
     py_float (map (\<lambda>c. if c = CHR '','' then CHR ''.'' else c) (strip text)) \<and>
   (2 \<le> length (filter (\<lambda>c. c = CHR '','' \<or> c = CHR ''.'') (strip text)) \<longrightarrow>
      clean_float text = Inl (CouldNotConvertFloat (replace_commas (strip text)))) \<and>
   clean_float ''1,234.5'' = Inl (CouldNotConvertFloat ''1.234.5'') \<and>
   py_float ''1234.5'' = Inr (Finite False (2469 / 2))"
proof -
  have "clean_float ''1,234.5'' = Inl (CouldNotConvertFloat ''1.234.5'')" by code_simp
  moreover have "py_float ''1234.5'' = Inr (Finite False (2469 / 2))" by code_simp
  ultimately show ?thesis
    using clean_float_two_separators [of "text"]
    by (simp add: clean_float_def replace_commas_def)
qed

theorem clean_float_every_comma_witness:
  "2 \<le> length (filter (\<lambda>c. c = CHR '','' \<or> c = CHR ''.'') (strip ''1,234.5'')) \<and>
   replace_commas (strip ''1,234.5'') = ''1.234.5'' \<and>
   clean_float ''1,234.5'' = Inl (CouldNotConvertFloat ''1.234.5'')"
proof -
  have a: "2 \<le> length (filter (\<lambda>c. c = CHR '','' \<or> c = CHR ''.'') (strip ''1,234.5''))"
    by code_simp
  have b: "replace_commas (strip ''1,234.5'') = ''1.234.5''" by code_simp
  from clean_float_every_comma [of "''1,234.5''"] a
  have "clean_float ''1,234.5'' = Inl (CouldNotConvertFloat (replace_commas (strip ''1,234.5'')))"
    by blast
  with a b show ?thesis by simp
qed

end
